theory Spec2Isabelle
  imports Main "HOL-Library.AList"
begin

section \<open>The assistant bot of \<^verbatim>\<open>task_4/assistant.py\<close>\<close>

text \<open>
  A Python \<^verbatim>\<open>str\<close> is modelled as a \<^typ>\<open>string\<close> whose characters are the code
  points below 256, so \<^term>\<open>length\<close> counts code points as Python does. What Python
  does with code points from 256 on (more white space, more letters with a lower case) is
  outside the model.
\<close>

subsection \<open>Strings: the methods of \<^verbatim>\<open>str\<close> the program calls\<close>

definition dquote :: char where
  "dquote = CHR 0x22"

definition squote :: char where
  "squote = CHR 0x27"

definition is_space :: "char \<Rightarrow> bool" where
  \<comment> \<open>\<^verbatim>\<open>str.isspace\<close> on one code point below 256: TAB, LF, VT, FF, CR, FS, GS, RS, US,
      SPACE, NEL, NBSP. It is the white space of \<^verbatim>\<open>split()\<close> and \<^verbatim>\<open>strip()\<close>.\<close>
  "is_space c =
     (let n = (of_char c :: nat)
      in (9 \<le> n \<and> n \<le> 13) \<or> (28 \<le> n \<and> n \<le> 32) \<or> n = 133 \<or> n = 160)"

definition lower_char :: "char \<Rightarrow> char" where
  \<comment> \<open>\<^verbatim>\<open>str.lower\<close> on one code point below 256: A to Z, and the Latin-1 capitals
      U+00C0 to U+00DE without the multiplication sign U+00D7.\<close>
  "lower_char c =
     (let n = (of_char c :: nat)
      in if (65 \<le> n \<and> n \<le> 90) \<or> (192 \<le> n \<and> n \<le> 222 \<and> n \<noteq> 215)
         then char_of (n + 32) else c)"

definition lower :: "string \<Rightarrow> string" where
  "lower s = map lower_char s"

definition strip :: "string \<Rightarrow> string" where
  \<comment> \<open>\<^verbatim>\<open>s.strip()\<close>\<close>
  "strip s = rev (dropWhile is_space (rev (dropWhile is_space s)))"

fun split_from :: "string \<Rightarrow> string \<Rightarrow> string list" where
  \<comment> \<open>the scan of \<^verbatim>\<open>s.split()\<close>; the first argument is the word being read\<close>
  "split_from cur [] = (if cur = [] then [] else [cur])"
| "split_from cur (c # cs) =
     (if is_space c then (if cur = [] then split_from [] cs else cur # split_from [] cs)
      else split_from (cur @ [c]) cs)"

definition split :: "string \<Rightarrow> string list" where
  \<comment> \<open>\<^verbatim>\<open>s.split()\<close>: the maximal runs of characters that are not white space\<close>
  "split s = split_from [] s"

definition split_maxsplit1 :: "string \<Rightarrow> string list" where
  \<comment> \<open>\<^verbatim>\<open>s.split(maxsplit=1)\<close>: the first word, then the rest of the string from the
      first character after the white space that follows the word, if there is one\<close>
  "split_maxsplit1 s =
     (let s1 = dropWhile is_space s
      in if s1 = [] then []
         else (let w = takeWhile (\<lambda>c. \<not> is_space c) s1;
                   r = dropWhile is_space (dropWhile (\<lambda>c. \<not> is_space c) s1)
               in if r = [] then [w] else [w, r]))"

fun join :: "string \<Rightarrow> string list \<Rightarrow> string" where
  \<comment> \<open>\<^verbatim>\<open>sep.join(xs)\<close>\<close>
  "join sep [] = []"
| "join sep [x] = x"
| "join sep (x # y # ys) = x @ sep @ join sep (y # ys)"

definition endswith_quote :: "string \<Rightarrow> bool" where
  \<comment> \<open>\<^verbatim>\<open>s.endswith(('"', "'"))\<close>\<close>
  "endswith_quote s = (s \<noteq> [] \<and> (last s = dquote \<or> last s = squote))"

subsection \<open>\<^verbatim>\<open>parse_input\<close>\<close>

type_synonym scan_state = "string list \<times> string \<times> char option"
  \<comment> \<open>\<^verbatim>\<open>args\<close>, \<^verbatim>\<open>current_arg\<close>, \<^verbatim>\<open>in_quotes\<close>\<close>

fun scan_char :: "scan_state \<Rightarrow> char \<Rightarrow> scan_state" where
  \<comment> \<open>the body of \<^verbatim>\<open>for char in args_string\<close>\<close>
  "scan_char (args, current_arg, Some q) ch =
     (if ch = q then (args, current_arg, None)
      else (args, current_arg @ [ch], Some q))"
| "scan_char (args, current_arg, None) ch =
     (if ch = dquote \<or> ch = squote then (args, current_arg, Some ch)
      else if ch = CHR '' '' then
        ((if current_arg \<noteq> [] then args @ [current_arg] else args), [], None)
      else (args, current_arg @ [ch], None))"

definition scan :: "string \<Rightarrow> scan_state" where
  \<comment> \<open>the whole loop, from \<^verbatim>\<open>args = []\<close>, \<^verbatim>\<open>current_arg = ""\<close>, \<^verbatim>\<open>in_quotes = None\<close>\<close>
  "scan args_string = foldl scan_char ([], [], None) args_string"

definition collect_args :: "string \<Rightarrow> string list" where
  \<comment> \<open>the loop and the \<^verbatim>\<open>if\<close> after it: the value of \<^verbatim>\<open>args\<close> at the \<^verbatim>\<open>return\<close>\<close>
  "collect_args args_string =
     (case scan args_string of
        (args, current_arg, in_quotes) \<Rightarrow>
          if current_arg \<noteq> [] \<or>
             (current_arg = [] \<and> in_quotes = None \<and> endswith_quote args_string \<and> args = [])
          then args @ [current_arg] else args)"

definition parse_input :: "string \<Rightarrow> string \<times> string list" where
  "parse_input user_input0 =
     (let user_input = join '' '' (split user_input0)
      in if user_input = [] then ([], [])
         else (let parts = split_maxsplit1 user_input;
                   command = lower (strip (hd parts))
               in if length parts = 1 then (command, [])
                  else (let args_string = parts ! 1
                        in (command, collect_args args_string))))"

subsection \<open>The contacts and the handlers\<close>

type_synonym contacts = "(string \<times> string) list"
  \<comment> \<open>a \<^verbatim>\<open>dict\<close>: the items in insertion order, no key twice\<close>

datatype py_exception = ValueError | IndexError | KeyError | OtherException
  \<comment> \<open>the three classes the decorator names, and any exception that is none of them\<close>

type_synonym handler = "string list \<Rightarrow> contacts \<Rightarrow> (py_exception + string) \<times> contacts"
  \<comment> \<open>a handler returns a string or raises, and leaves the dictionary as it made it\<close>

definition UNIVERSAL_ERROR_MESSAGE :: string where
  "UNIVERSAL_ERROR_MESSAGE = ''Enter the argument for the command''"

definition dict_contains :: "contacts \<Rightarrow> string \<Rightarrow> bool" where
  \<comment> \<open>\<^verbatim>\<open>name in contacts\<close>\<close>
  "dict_contains contacts name = (map_of contacts name \<noteq> None)"

definition dict_set :: "contacts \<Rightarrow> string \<Rightarrow> string \<Rightarrow> contacts" where
  \<comment> \<open>\<^verbatim>\<open>contacts[name] = phone\<close>: a key that is there keeps its place, a new one goes last\<close>
  "dict_set contacts name phone = AList.update name phone contacts"

definition input_error :: "handler \<Rightarrow> handler" where
  "input_error func args contacts =
     (case func args contacts of
        (Inr s, contacts') \<Rightarrow> (Inr s, contacts')
      | (Inl e, contacts') \<Rightarrow>
          if e = ValueError \<or> e = IndexError \<or> e = KeyError
          then (Inr UNIVERSAL_ERROR_MESSAGE, contacts')
          else (Inl e, contacts'))"

definition add_contact_func :: handler where
  \<comment> \<open>the body of \<^verbatim>\<open>add_contact\<close>; unpacking a list that has not two items raises
      \<^verbatim>\<open>ValueError\<close>\<close>
  "add_contact_func args contacts =
     (case args of
        [name, phone] \<Rightarrow>
          if dict_contains contacts name then (Inl ValueError, contacts)
          else (Inr ''Contact added.'', dict_set contacts name phone)
      | _ \<Rightarrow> (Inl ValueError, contacts))"

definition change_contact_func :: handler where
  "change_contact_func args contacts =
     (case args of
        [name, new_phone] \<Rightarrow>
          if \<not> dict_contains contacts name then (Inl KeyError, contacts)
          else (Inr ''Contact updated.'', dict_set contacts name new_phone)
      | _ \<Rightarrow> (Inl ValueError, contacts))"

definition show_phone_func :: handler where
  "show_phone_func args contacts =
     (case args of
        [] \<Rightarrow> (Inl IndexError, contacts)
      | name # _ \<Rightarrow>
          (case map_of contacts name of
             None \<Rightarrow> (Inl KeyError, contacts)
           | Some phone \<Rightarrow> (Inr phone, contacts)))"

definition add_contact :: handler where
  "add_contact = input_error add_contact_func"

definition change_contact :: handler where
  "change_contact = input_error change_contact_func"

definition show_phone :: handler where
  "show_phone = input_error show_phone_func"

definition show_all :: "contacts \<Rightarrow> string" where
  "show_all contacts =
     (if contacts = [] then ''No contacts saved.''
      else join [CHR 0x0A] (map (\<lambda>(name, phone). name @ '': '' @ phone) contacts))"

subsection \<open>\<^verbatim>\<open>main\<close>\<close>

datatype control = Continue | Break | Raised py_exception
  \<comment> \<open>how one turn of \<^verbatim>\<open>while True\<close> ends: the next turn, \<^verbatim>\<open>break\<close>, or an exception
      that nothing catches\<close>

type_synonym turn = "control \<times> string list \<times> contacts"
  \<comment> \<open>with the lines printed in the turn and the dictionary after it\<close>

definition print_result :: "(py_exception + string) \<times> contacts \<Rightarrow> turn" where
  \<comment> \<open>\<^verbatim>\<open>print(handler(args, contacts))\<close>\<close>
  "print_result r =
     (case r of
        (Inr s, contacts') \<Rightarrow> (Continue, [s], contacts')
      | (Inl e, contacts') \<Rightarrow> (Raised e, [], contacts'))"

definition dispatch :: "contacts \<Rightarrow> string \<Rightarrow> turn" where
  \<comment> \<open>one turn of the loop, \<^verbatim>\<open>input\<close> having returned the line\<close>
  "dispatch contacts line =
     (let user_input = strip line
      in if user_input = [] then (Continue, [], contacts)
         else (case parse_input user_input of
                 (command, args) \<Rightarrow>
                   if command = ''close'' \<or> command = ''exit'' then (Break, [''Good bye!''], contacts)
                   else if command = ''hello'' then (Continue, [''How can I help you?''], contacts)
                   else if command = ''add'' then print_result (add_contact args contacts)
                   else if command = ''change'' then print_result (change_contact args contacts)
                   else if command = ''phone'' then print_result (show_phone args contacts)
                   else if command = ''all'' then (Continue, [show_all contacts], contacts)
                   else (Continue, [''Invalid command.''], contacts)))"

fun main_loop :: "contacts \<Rightarrow> string list \<Rightarrow> control \<times> string list \<times> contacts" where
  \<comment> \<open>\<^verbatim>\<open>while True\<close> over the lines that \<^verbatim>\<open>input\<close> returns; at the end of the list
      \<^verbatim>\<open>input\<close> raises \<^verbatim>\<open>EOFError\<close>\<close>
  "main_loop contacts [] = (Break, [[CHR 0x0A] @ ''Good bye!''], contacts)"
| "main_loop contacts (line # lines) =
     (case dispatch contacts line of
        (Continue, out, contacts') \<Rightarrow>
          (case main_loop contacts' lines of (ctl, out', contacts'') \<Rightarrow> (ctl, out @ out', contacts''))
      | (ctl, out, contacts') \<Rightarrow> (ctl, out, contacts'))"

definition main :: "string list \<Rightarrow> control \<times> string list \<times> contacts" where
  "main lines =
     (case main_loop [] lines of
        (ctl, out, contacts) \<Rightarrow> (ctl, ''Welcome to the assistant bot!'' # out, contacts))"

subsection \<open>Predicates and operations the statements use\<close>

definition is_word :: "string \<Rightarrow> bool" where
  \<comment> \<open>a non-empty string without white space\<close>
  "is_word w = (w \<noteq> [] \<and> list_all (\<lambda>c. \<not> is_space c) w)"

definition is_bare :: "string \<Rightarrow> bool" where
  \<comment> \<open>a non-empty string without white space and without quote characters\<close>
  "is_bare w = (w \<noteq> [] \<and> list_all (\<lambda>c. \<not> is_space c \<and> c \<noteq> dquote \<and> c \<noteq> squote) w)"

fun no_space_run :: "string \<Rightarrow> bool" where
  \<comment> \<open>no two white space characters next to each other\<close>
  "no_space_run (a # b # cs) = (\<not> (is_space a \<and> is_space b) \<and> no_space_run (b # cs))"
| "no_space_run _ = True"


section \<open>Auxiliary facts\<close>

subsection \<open>Characters, words, \<^verbatim>\<open>split\<close> and \<^verbatim>\<open>join\<close>\<close>

lemma is_space_blank [simp]: "is_space (CHR '' '')"
  by (simp add: is_space_def)

lemma not_space_quotes [simp]: "\<not> is_space dquote" "\<not> is_space squote"
  by (simp_all add: is_space_def dquote_def squote_def)

lemma quotes_neq [simp]:
  "dquote \<noteq> squote" "squote \<noteq> dquote"
  "dquote \<noteq> CHR '' ''" "squote \<noteq> CHR '' ''" "CHR '' '' \<noteq> dquote" "CHR '' '' \<noteq> squote"
  by (simp_all add: dquote_def squote_def)



lemma is_bare_word: "is_bare w \<Longrightarrow> is_word w"
  by (simp add: is_bare_def is_word_def list_all_iff)

lemma split_from_nonspace:
  "list_all (\<lambda>c. \<not> is_space c) w \<Longrightarrow> split_from cur (w @ r) = split_from (cur @ w) r"
  by (induction w arbitrary: cur) simp_all

lemma split_from_word_end: "is_word w \<Longrightarrow> split_from [] w = [w]"
  using split_from_nonspace [of w "[]" "[]"] by (simp add: is_word_def)

lemma split_from_word_blank:
  "is_word w \<Longrightarrow> split_from [] (w @ CHR '' '' # r) = w # split_from [] r"
  using split_from_nonspace [of w "[]" "CHR '' '' # r"] by (simp add: is_word_def)

lemma split_join: "list_all is_word ws \<Longrightarrow> split (join '' '' ws) = ws"
  unfolding split_def
proof (induction "'' ''" ws rule: join.induct)
  case 1
  then show ?case by simp
next
  case (2 x)
  then show ?case by (simp add: split_from_word_end)
next
  case (3 x y ys)
  then show ?case by (simp add: split_from_word_blank)
qed

lemma split_from_words:
  "list_all (\<lambda>c. \<not> is_space c) cur \<Longrightarrow> list_all is_word (split_from cur s)"
  by (induction s arbitrary: cur) (simp_all add: is_word_def)

lemma split_words: "list_all is_word (split s)"
  by (simp add: split_def split_from_words)

lemma split_normalized: "split (join '' '' (split s)) = split s"
  by (simp add: split_join split_words)

lemma join_Cons: "join sep (x # xs) = (if xs = [] then x else x @ sep @ join sep xs)"
  by (cases xs) simp_all

lemma join_eq_Nil: "list_all is_word ws \<Longrightarrow> (join '' '' ws = []) = (ws = [])"
  by (cases ws) (auto simp: join_Cons is_word_def)

lemma dropWhile_word: "is_word w \<Longrightarrow> dropWhile is_space (w @ r) = w @ r"
  by (cases w) (simp_all add: is_word_def)

lemma split_maxsplit1_join:
  assumes "is_word w" "list_all is_word ws"
  shows "split_maxsplit1 (join '' '' (w # ws)) = (if ws = [] then [w] else [w, join '' '' ws])"
proof (cases ws)
  case Nil
  have 1: "dropWhile is_space w = w" using dropWhile_word [OF assms(1), of "[]"] by simp
  have 2: "takeWhile (\<lambda>c. \<not> is_space c) w = w"
    using assms(1) by (simp add: is_word_def list_all_iff)
  have 3: "dropWhile (\<lambda>c. \<not> is_space c) w = []"
    using assms(1) by (simp add: is_word_def list_all_iff)
  have "w \<noteq> []" using assms(1) by (simp add: is_word_def)
  then show ?thesis unfolding split_maxsplit1_def Let_def using Nil by (simp add: 1 2 3)
next
  case (Cons v vs)
  let ?r = "join '' '' (v # vs)"
  have v: "is_word v" and vs: "list_all is_word vs" using assms(2) Cons by simp_all
  have "?r = v @ (if vs = [] then [] else CHR '' '' # join '' '' vs)"
    by (simp add: join_Cons)
  then have r: "dropWhile is_space ?r = ?r" "?r \<noteq> []"
    using dropWhile_word [OF v] v by (simp_all add: is_word_def)
  have ns: "\<And>c. c \<in> set w \<Longrightarrow> \<not> is_space c" using assms(1) by (simp add: is_word_def list_all_iff)
  have s: "join '' '' (w # ws) = w @ CHR '' '' # ?r" using Cons by simp
  have 1: "dropWhile is_space (w @ CHR '' '' # ?r) = w @ CHR '' '' # ?r"
    using dropWhile_word [OF assms(1)] by simp
  have 2: "takeWhile (\<lambda>c. \<not> is_space c) (w @ CHR '' '' # ?r) = w"
    using ns by (simp add: takeWhile_append2)
  have 3: "dropWhile (\<lambda>c. \<not> is_space c) (w @ CHR '' '' # ?r) = CHR '' '' # ?r"
    using ns by (simp add: dropWhile_append2)
  show ?thesis
    unfolding s split_maxsplit1_def Let_def 1 2 3 using r Cons by simp
qed

lemma dropWhile_hd: "s \<noteq> [] \<Longrightarrow> \<not> P (hd s) \<Longrightarrow> dropWhile P s = s"
  by (cases s) simp_all

lemma strip_word: "is_word w \<Longrightarrow> strip w = w"
proof -
  assume w: "is_word w"
  then have "w \<noteq> []" "\<not> is_space (hd w)" "\<not> is_space (last w)"
    by (auto simp: is_word_def list_all_iff)
  then have "dropWhile is_space w = w" "dropWhile is_space (rev w) = rev w"
    by (simp_all add: dropWhile_hd hd_rev)
  then show ?thesis by (simp add: strip_def)
qed


subsection \<open>The tokenizer on the words of a line\<close>

lemma parse_input_words:
  "parse_input s =
     (case split s of
        [] \<Rightarrow> ([], [])
      | w # ws \<Rightarrow> (lower w, if ws = [] then [] else collect_args (join '' '' ws)))"
proof (cases "split s")
  case Nil
  then show ?thesis by (simp add: parse_input_def)
next
  case (Cons w ws)
  have w: "is_word w" and ws: "list_all is_word ws"
    using split_words [of s] Cons by simp_all
  have ne: "join '' '' (w # ws) \<noteq> []"
    using join_eq_Nil [of "w # ws"] w ws by simp
  have parts: "split_maxsplit1 (join '' '' (w # ws)) = (if ws = [] then [w] else [w, join '' '' ws])"
    by (rule split_maxsplit1_join [OF w ws])
  show ?thesis
    unfolding parse_input_def Let_def Cons parts using ne
    by (simp add: strip_word [OF w])
qed

lemma scan_chars_bare:
  "list_all (\<lambda>c. \<not> is_space c \<and> c \<noteq> dquote \<and> c \<noteq> squote) w \<Longrightarrow>
   foldl scan_char (args, cur, None) w = (args, cur @ w, None)"
proof (induction w arbitrary: cur)
  case Nil
  then show ?case by simp
next
  case (Cons c w)
  then have "c \<noteq> CHR '' ''" by auto
  with Cons show ?case by simp
qed

lemma scan_bare_blank:
  "is_bare w \<Longrightarrow>
   foldl scan_char (args, [], None) (w @ CHR '' '' # r) = foldl scan_char (args @ [w], [], None) r"
  by (simp add: is_bare_def scan_chars_bare)

lemma scan_join_bare:
  "list_all is_bare ws \<Longrightarrow> ws \<noteq> [] \<Longrightarrow>
   foldl scan_char (args, [], None) (join '' '' ws) = (args @ butlast ws, last ws, None)"
proof (induction "'' ''" ws arbitrary: args rule: join.induct)
  case 1
  then show ?case by simp
next
  case (2 x)
  then show ?case by (simp add: is_bare_def scan_chars_bare)
next
  case (3 x y ys)
  have "join '' '' (x # y # ys) = x @ CHR '' '' # join '' '' (y # ys)" by simp
  moreover have "is_bare x" using "3.prems" by simp
  ultimately have "foldl scan_char (args, [], None) (join '' '' (x # y # ys)) =
             foldl scan_char (args @ [x], [], None) (join '' '' (y # ys))"
    by (simp only: scan_bare_blank)
  also have "\<dots> = ((args @ [x]) @ butlast (y # ys), last (y # ys), None)"
    using 3 by (intro "3.hyps") simp_all
  finally show ?case by simp
qed

lemma join_last_nonempty:
  "list_all is_word ws \<Longrightarrow> ws \<noteq> [] \<Longrightarrow> join '' '' ws \<noteq> [] \<and> last (join '' '' ws) = last (last ws)"
  by (induction "'' ''" ws rule: join.induct) (auto simp: is_word_def)


lemma scan_char_pushed:
  "scan_char (args, cur, q) c = (args', cur', q') \<Longrightarrow> [] \<notin> set args \<Longrightarrow> [] \<notin> set args'"
  by (cases q) (auto split: if_splits)

lemma scan_pushed:
  "foldl scan_char st s = st' \<Longrightarrow> [] \<notin> set (fst st) \<Longrightarrow> [] \<notin> set (fst st')"
proof (induction s arbitrary: st)
  case Nil
  then show ?case by simp
next
  case (Cons c s)
  obtain args cur q where st: "st = (args, cur, q)" by (cases st)
  obtain args1 cur1 q1 where st1: "scan_char (args, cur, q) c = (args1, cur1, q1)"
    by (cases "scan_char (args, cur, q) c")
  have "[] \<notin> set args1" using scan_char_pushed [OF st1] Cons.prems(2) st by simp
  then show ?case using Cons.IH [of "(args1, cur1, q1)"] Cons.prems(1) st st1 by simp
qed

lemma scan_args_nonempty: "scan s = (args, cur, q) \<Longrightarrow> [] \<notin> set args"
  using scan_pushed [of "([], [], None)" s "(args, cur, q)"] by (simp add: scan_def)

lemma collect_args_empty_only: "[] \<in> set (collect_args a) \<Longrightarrow> collect_args a = [[]]"
proof -
  obtain args cur q where sc: "scan a = (args, cur, q)" by (cases "scan a")
  have "[] \<notin> set args" by (rule scan_args_nonempty [OF sc])
  then show "[] \<in> set (collect_args a) \<Longrightarrow> collect_args a = [[]]"
    by (auto simp: collect_args_def sc split: if_splits)
qed

lemma collect_args_empty_iff:
  "collect_args a = [[]] \<longleftrightarrow> scan a = ([], [], None) \<and> endswith_quote a"
proof -
  obtain args cur q where sc: "scan a = (args, cur, q)" by (cases "scan a")
  have "[] \<notin> set args" by (rule scan_args_nonempty [OF sc])
  then show ?thesis
    by (auto simp: collect_args_def sc split: if_splits)
qed



subsection \<open>\<^verbatim>\<open>strip\<close>, and a turn of the loop on the words of a line\<close>

lemma split_spaces: "list_all is_space t \<Longrightarrow> split_from [] t = []"
  by (induction t) simp_all

lemma split_from_trailing: "list_all is_space t \<Longrightarrow> split_from cur (s @ t) = split_from cur s"
proof (induction s arbitrary: cur)
  case Nil
  then show ?case by (cases t) (simp_all add: split_spaces)
next
  case (Cons c s)
  then show ?case by simp
qed

lemma split_dropWhile: "split (dropWhile is_space s) = split s"
  by (induction s) (simp_all add: split_def)

lemma strip_decompose:
  "dropWhile is_space s = strip s @ rev (takeWhile is_space (rev (dropWhile is_space s)))"
proof -
  let ?u = "dropWhile is_space s"
  have "strip s @ rev (takeWhile is_space (rev ?u)) =
        rev (takeWhile is_space (rev ?u) @ dropWhile is_space (rev ?u))"
    by (simp only: strip_def rev_append)
  also have "\<dots> = rev (rev ?u)" by (simp only: takeWhile_dropWhile_id)
  finally show ?thesis by simp
qed

lemma split_strip: "split (strip s) = split s"
proof -
  let ?t = "rev (takeWhile is_space (rev (dropWhile is_space s)))"
  have t: "list_all is_space ?t"
    by (simp add: list_all_iff) (meson set_takeWhileD)
  have "split s = split (strip s @ ?t)"
    using strip_decompose [of s] split_dropWhile [of s] by simp
  also have "\<dots> = split (strip s)"
    unfolding split_def by (rule split_from_trailing [OF t])
  finally show ?thesis by simp
qed

lemma split_Nil [simp]: "split [] = []"
  by (simp add: split_def)

lemma split_from_nonempty: "cur \<noteq> [] \<Longrightarrow> split_from cur s \<noteq> []"
  by (induction s arbitrary: cur) simp_all

lemma split_hd_nonspace: "s \<noteq> [] \<Longrightarrow> \<not> is_space (hd s) \<Longrightarrow> split s \<noteq> []"
  by (cases s) (simp_all add: split_def split_from_nonempty)

lemma strip_empty_iff: "strip s = [] \<longleftrightarrow> split s = []"
proof
  assume "strip s = []"
  then show "split s = []" using split_strip [of s] by simp
next
  assume e: "split s = []"
  show "strip s = []"
  proof (rule ccontr)
    assume ne: "strip s \<noteq> []"
    have "dropWhile is_space s = [] \<Longrightarrow> strip s = []"
      by (simp only: strip_def rev.simps dropWhile.simps)
    with ne have u: "dropWhile is_space s \<noteq> []" by blast
    then have "\<not> is_space (hd (dropWhile is_space s))" by (rule hd_dropWhile)
    then have "split (dropWhile is_space s) \<noteq> []" using u by (intro split_hd_nonspace)
    then show False using e by (simp add: split_dropWhile)
  qed
qed

lemma dispatch_words:
  "dispatch contacts line =
     (case split line of
        [] \<Rightarrow> (Continue, [], contacts)
      | w # ws \<Rightarrow>
          (let command = lower w; args = (if ws = [] then [] else collect_args (join '' '' ws))
           in if command = ''close'' \<or> command = ''exit'' then (Break, [''Good bye!''], contacts)
              else if command = ''hello'' then (Continue, [''How can I help you?''], contacts)
              else if command = ''add'' then print_result (add_contact args contacts)
              else if command = ''change'' then print_result (change_contact args contacts)
              else if command = ''phone'' then print_result (show_phone args contacts)
              else if command = ''all'' then (Continue, [show_all contacts], contacts)
              else (Continue, [''Invalid command.''], contacts)))"
proof (cases "split line")
  case Nil
  then have "strip line = []" by (simp add: strip_empty_iff)
  then show ?thesis using Nil by (simp add: dispatch_def)
next
  case (Cons w ws)
  then have ne: "strip line \<noteq> []" by (simp add: strip_empty_iff)
  have "parse_input (strip line) = (lower w, if ws = [] then [] else collect_args (join '' '' ws))"
    using Cons by (simp add: parse_input_words split_strip)
  then show ?thesis using ne Cons by (simp add: dispatch_def Let_def)
qed

subsection \<open>The normalized line\<close>

lemma no_space_run_nonspace: "\<not> is_space a \<Longrightarrow> no_space_run (a # xs) = no_space_run xs"
  by (cases xs) simp_all

lemma no_space_run_word: "list_all (\<lambda>c. \<not> is_space c) w \<Longrightarrow> no_space_run (w @ r) = no_space_run r"
  by (induction w) (simp_all add: no_space_run_nonspace)

lemma no_space_run_join: "list_all is_word ws \<Longrightarrow> no_space_run (join '' '' ws)"
proof (induction "'' ''" ws rule: join.induct)
  case 1
  then show ?case by simp
next
  case (2 x)
  then show ?case using no_space_run_word [of x "[]"] by (simp add: is_word_def)
next
  case (3 x y ys)
  have y: "is_word y" using "3.prems" by simp
  then obtain c y' where c: "y = c # y'" "\<not> is_space c" by (cases y) (auto simp: is_word_def)
  have "join '' '' (y # ys) = c # tl (join '' '' (y # ys))"
    using c by (simp add: join_Cons)
  then have "no_space_run (CHR '' '' # join '' '' (y # ys)) = no_space_run (join '' '' (y # ys))"
    using c(2) by (metis no_space_run.simps(1))
  then show ?case using 3 no_space_run_word [of x "CHR '' '' # join '' '' (y # ys)"]
    by (simp add: is_word_def)
qed

lemma join_hd_nonspace:
  "list_all is_word ws \<Longrightarrow> ws \<noteq> [] \<Longrightarrow> \<not> is_space (hd (join '' '' ws))"
  by (cases ws) (auto simp: join_Cons is_word_def list_all_iff)

lemma join_last_nonspace:
  "list_all is_word ws \<Longrightarrow> ws \<noteq> [] \<Longrightarrow> \<not> is_space (last (join '' '' ws))"
proof -
  assume a: "list_all is_word ws" "ws \<noteq> []"
  then have "is_word (last ws)" by (simp add: list_all_iff)
  then have "\<not> is_space (last (last ws))" by (simp add: is_word_def list_all_iff)
  then show ?thesis using join_last_nonempty [OF a] by simp
qed

lemma join_spaces_blank: "list_all is_word ws \<Longrightarrow> c \<in> set (join '' '' ws) \<Longrightarrow> is_space c \<Longrightarrow> c = CHR '' ''"
  by (induction "'' ''" ws rule: join.induct) (auto simp: is_word_def list_all_iff)

lemma concat_split_from: "concat (split_from cur s) = cur @ filter (\<lambda>c. \<not> is_space c) s"
  by (induction s arbitrary: cur) simp_all

lemma filter_join: "list_all is_word ws \<Longrightarrow> filter (\<lambda>c. \<not> is_space c) (join '' '' ws) = concat ws"
  by (induction "'' ''" ws rule: join.induct) (auto simp: is_word_def list_all_iff)

lemma normalized_nonspace:
  "filter (\<lambda>c. \<not> is_space c) (join '' '' (split s)) = filter (\<lambda>c. \<not> is_space c) s"
proof -
  have "filter (\<lambda>c. \<not> is_space c) (join '' '' (split s)) = concat (split s)"
    by (rule filter_join [OF split_words])
  also have "\<dots> = filter (\<lambda>c. \<not> is_space c) s"
    using concat_split_from [of "[]" s] by (simp add: split_def)
  finally show ?thesis .
qed

subsection \<open>More on \<^verbatim>\<open>join\<close> and the argument string\<close>

lemma join_snoc: "join sep (xs @ [y]) = (if xs = [] then y else join sep xs @ sep @ y)"
  by (induction sep xs rule: join.induct) simp_all

lemma parse_input_args_string:
  "snd (parse_input s) = (if tl (split s) = [] then [] else collect_args (join '' '' (tl (split s))))"
  by (cases "split s") (simp_all add: parse_input_words)


lemma scan_snoc: "scan (a @ [ch]) = scan_char (scan a) ch"
  by (simp add: scan_def)


subsection \<open>The handlers by cases\<close>

lemma add_contact_func_cases:
  "add_contact_func args contacts =
     (if length args \<noteq> 2 then (Inl ValueError, contacts)
      else if dict_contains contacts (args ! 0) then (Inl ValueError, contacts)
      else (Inr ''Contact added.'', dict_set contacts (args ! 0) (args ! 1)))"
proof (cases args)
  case Nil
  then show ?thesis by (simp add: add_contact_func_def)
next
  case (Cons a as)
  note 1 = Cons
  show ?thesis
  proof (cases as)
    case Nil
    then show ?thesis using 1 by (simp add: add_contact_func_def)
  next
    case (Cons b bs)
    then show ?thesis using 1 by (cases bs) (simp_all add: add_contact_func_def)
  qed
qed

lemma change_contact_func_cases:
  "change_contact_func args contacts =
     (if length args \<noteq> 2 then (Inl ValueError, contacts)
      else if \<not> dict_contains contacts (args ! 0) then (Inl KeyError, contacts)
      else (Inr ''Contact updated.'', dict_set contacts (args ! 0) (args ! 1)))"
proof (cases args)
  case Nil
  then show ?thesis by (simp add: change_contact_func_def)
next
  case (Cons a as)
  note 1 = Cons
  show ?thesis
  proof (cases as)
    case Nil
    then show ?thesis using 1 by (simp add: change_contact_func_def)
  next
    case (Cons b bs)
    then show ?thesis using 1 by (cases bs) (simp_all add: change_contact_func_def)
  qed
qed

lemma show_phone_func_cases:
  "show_phone_func args contacts =
     (if args = [] then (Inl IndexError, contacts)
      else (case map_of contacts (hd args) of
              None \<Rightarrow> (Inl KeyError, contacts)
            | Some phone \<Rightarrow> (Inr phone, contacts)))"
  by (cases args) (simp_all add: show_phone_func_def)

lemma funcs_raise_caught:
  "fst (add_contact_func args contacts) \<noteq> Inl OtherException"
  "fst (change_contact_func args contacts) \<noteq> Inl OtherException"
  "fst (show_phone_func args contacts) \<noteq> Inl OtherException"
  by (simp_all add: add_contact_func_cases change_contact_func_cases show_phone_func_cases
      split: option.splits)

lemma input_error_returns:
  "(\<And>e. fst (func args contacts) = Inl e \<Longrightarrow> e \<noteq> OtherException) \<Longrightarrow>
   \<exists>m. fst (input_error func args contacts) = Inr m"
proof -
  assume a: "\<And>e. fst (func args contacts) = Inl e \<Longrightarrow> e \<noteq> OtherException"
  obtain r contacts' where f: "func args contacts = (r, contacts')"
    by (cases "func args contacts")
  show ?thesis
  proof (cases r)
    case (Inl e)
    with a f have "e \<noteq> OtherException" by simp
    then show ?thesis using f Inl by (cases e) (simp_all add: input_error_def)
  next
    case (Inr s)
    then show ?thesis using f by (simp add: input_error_def)
  qed
qed

lemma dict_set_new:
  "\<not> dict_contains contacts name \<Longrightarrow> dict_set contacts name phone = contacts @ [(name, phone)]"
  unfolding dict_contains_def dict_set_def
  by (induction contacts) (auto split: if_splits)

lemma dict_set_keys:
  "dict_contains contacts name \<Longrightarrow> map fst (dict_set contacts name phone) = map fst contacts"
  unfolding dict_contains_def dict_set_def
  by (induction contacts) (auto split: if_splits)


section \<open>The claims\<close>

subsection \<open>C1: empty quoted arguments\<close>

text \<open>
  C1, as the code has it. An empty string is an argument of a line only as the one and
  only argument: every empty quoted segment that is followed by a space is dropped, and
  so is one at the end of the line as soon as an argument was pushed before it (the guard
  \<^verbatim>\<open>not args\<close>). The arguments are exactly the list of one empty string when the
  scan of the argument string ends outside quotes with an empty buffer and no argument
  pushed, and the argument string ends with a quote character. So a line of a command
  word, one or more words without quote characters and a final \<^verbatim>\<open>""\<close> has those
  words as its arguments and no empty one, and a line of a command word and \<^verbatim>\<open>""\<close>
  has the one empty argument.
\<close>

theorem parse_input_empty_argument:
  "([] \<in> set (snd (parse_input s)) \<longrightarrow> snd (parse_input s) = [[]])
   \<and> (snd (parse_input s) = [[]] \<longleftrightarrow>
        scan (join '' '' (tl (split s))) = ([], [], None) \<and> endswith_quote (join '' '' (tl (split s))))
   \<and> (is_word cmd \<and> list_all is_bare ws \<and> ws \<noteq> [] \<longrightarrow>
        parse_input (join '' '' (cmd # ws) @ [CHR '' '', dquote, dquote]) = (lower cmd, ws))
   \<and> (is_word cmd \<longrightarrow> parse_input (cmd @ [CHR '' '', dquote, dquote]) = (lower cmd, [[]]))"
proof (intro conjI impI)
  assume "[] \<in> set (snd (parse_input s))"
  then show "snd (parse_input s) = [[]]"
    by (cases "tl (split s) = []") (simp_all add: parse_input_args_string collect_args_empty_only)
next
  show "snd (parse_input s) = [[]] \<longleftrightarrow>
        scan (join '' '' (tl (split s))) = ([], [], None) \<and> endswith_quote (join '' '' (tl (split s)))"
    by (cases "tl (split s) = []")
       (simp_all add: parse_input_args_string collect_args_empty_iff endswith_quote_def)
next
  assume a: "is_word cmd \<and> list_all is_bare ws \<and> ws \<noteq> []"
  let ?qq = "[dquote, dquote]"
  have qq: "is_word ?qq" by (simp add: is_word_def)
  have words: "list_all is_word (cmd # ws @ [?qq])"
    using a qq by (simp add: list_all_iff is_bare_word)
  have line: "join '' '' (cmd # ws) @ [CHR '' '', dquote, dquote] = join '' '' (cmd # ws @ [?qq])"
    using join_snoc [of "'' ''" "cmd # ws" ?qq] by simp
  have args: "join '' '' (ws @ [?qq]) = join '' '' ws @ [CHR '' '', dquote, dquote]"
    using a by (simp add: join_snoc)
  have "is_bare (last ws)" using a by (simp add: list_all_iff)
  then have "last ws \<noteq> []" by (simp add: is_bare_def)
  then have "scan (join '' '' ws @ [CHR '' '', dquote, dquote]) = (ws, [], None)"
    using a by (simp add: scan_def scan_join_bare)
  moreover have "endswith_quote (join '' '' ws @ [CHR '' '', dquote, dquote])"
    by (simp add: endswith_quote_def)
  ultimately have "collect_args (join '' '' (ws @ [?qq])) = ws"
    using a by (simp add: args collect_args_def)
  then show "parse_input (join '' '' (cmd # ws) @ [CHR '' '', dquote, dquote]) = (lower cmd, ws)"
    unfolding line using split_join [OF words] by (simp add: parse_input_words)
next
  assume w: "is_word cmd"
  let ?qq = "[dquote, dquote]"
  have qq: "is_word ?qq" by (simp add: is_word_def)
  have "split (join '' '' [cmd, ?qq]) = [cmd, ?qq]"
    by (rule split_join) (simp add: w qq)
  moreover have "collect_args ?qq = [[]]"
    by (simp add: collect_args_def scan_def endswith_quote_def)
  ultimately show "parse_input (cmd @ [CHR '' '', dquote, dquote]) = (lower cmd, [[]])"
    by (simp add: parse_input_words)
qed

text \<open>C1: the statement at lines that satisfy its hypotheses.\<close>

theorem parse_input_empty_argument_witness:
  "[] \<in> set (snd (parse_input (''add '' @ [dquote, dquote] @ '' '' @ [squote, squote])))
   \<and> snd (parse_input (''add '' @ [dquote, dquote] @ '' '' @ [squote, squote])) = [[]]
   \<and> is_word ''add'' \<and> list_all is_bare [''John'', ''123''] \<and> [''John'', ''123''] \<noteq> []
   \<and> parse_input (''add John 123 '' @ [dquote, dquote]) = (''add'', [''John'', ''123''])
   \<and> parse_input (''add '' @ [dquote, dquote]) = (''add'', [[]])"
proof -
  have 1: "[] \<in> set (snd (parse_input (''add '' @ [dquote, dquote] @ '' '' @ [squote, squote])))"
    by code_simp
  have 2: "is_word ''add''" by code_simp
  have 3: "list_all is_bare [''John'', ''123'']" by code_simp
  have 4: "lower ''add'' = ''add''" by code_simp
  show ?thesis
    using 1 2 3 4
      parse_input_empty_argument [of "''add '' @ [dquote, dquote] @ '' '' @ [squote, squote]"
        "''add''" "[''John'', ''123'']"]
    by simp
qed

text \<open>
  C1 as claimed fails: in \<^verbatim>\<open>add x ""\<close> the empty quoted string is the final token and
  the argument string ends with a quote character, and the arguments are \<^verbatim>\<open>["x"]\<close>.
\<close>

theorem parse_input_trailing_empty_counterexample:
  "endswith_quote (''x '' @ [dquote, dquote])
   \<and> parse_input (''add x '' @ [dquote, dquote]) = (''add'', [''x''])"
  by code_simp

subsection \<open>C2: the decorator \<^verbatim>\<open>input_error\<close>\<close>

text \<open>
  C2. Whatever the handler, a \<^verbatim>\<open>ValueError\<close>, \<^verbatim>\<open>IndexError\<close> or \<^verbatim>\<open>KeyError\<close> it
  raises becomes the one message \<^verbatim>\<open>Enter the argument for the command\<close>, and a string
  it returns is returned as it is, with the dictionary the handler left. A handler that
  raises nothing else always returns a string once it is wrapped, and so do the three
  wrapped handlers of the program, \<^verbatim>\<open>add_contact\<close>, \<^verbatim>\<open>change_contact\<close> and
  \<^verbatim>\<open>show_phone\<close>, on every argument list and dictionary: no exception leaves them.
  A name that is already there (for add), a name that is not there (for change and phone)
  and a missing argument all give the same message.
\<close>

theorem input_error_normalizes:
  "(fst (func args contacts) = Inl e \<and> (e = ValueError \<or> e = IndexError \<or> e = KeyError) \<longrightarrow>
      input_error func args contacts = (Inr UNIVERSAL_ERROR_MESSAGE, snd (func args contacts)))
   \<and> (fst (func args contacts) = Inr m \<longrightarrow> input_error func args contacts = func args contacts)
   \<and> (fst (func args contacts) \<noteq> Inl OtherException \<longrightarrow>
        (\<exists>s. fst (input_error func args contacts) = Inr s))
   \<and> (\<exists>s. fst (add_contact args contacts) = Inr s)
   \<and> (\<exists>s. fst (change_contact args contacts) = Inr s)
   \<and> (\<exists>s. fst (show_phone args contacts) = Inr s)
   \<and> (dict_contains contacts name \<longrightarrow>
        add_contact [name, phone] contacts = (Inr UNIVERSAL_ERROR_MESSAGE, contacts))
   \<and> (\<not> dict_contains contacts name \<longrightarrow>
        change_contact [name, phone] contacts = (Inr UNIVERSAL_ERROR_MESSAGE, contacts)
        \<and> show_phone [name] contacts = (Inr UNIVERSAL_ERROR_MESSAGE, contacts))
   \<and> add_contact [] contacts = (Inr UNIVERSAL_ERROR_MESSAGE, contacts)
   \<and> UNIVERSAL_ERROR_MESSAGE = ''Enter the argument for the command''"
proof (intro conjI impI)
  assume "fst (func args contacts) = Inl e \<and> (e = ValueError \<or> e = IndexError \<or> e = KeyError)"
  then show "input_error func args contacts = (Inr UNIVERSAL_ERROR_MESSAGE, snd (func args contacts))"
    by (cases "func args contacts") (auto simp: input_error_def)
next
  assume "fst (func args contacts) = Inr m"
  then show "input_error func args contacts = func args contacts"
    by (cases "func args contacts") (auto simp: input_error_def)
next
  assume "fst (func args contacts) \<noteq> Inl OtherException"
  then show "\<exists>s. fst (input_error func args contacts) = Inr s"
    by (intro input_error_returns) auto
next
  show "\<exists>s. fst (add_contact args contacts) = Inr s"
    unfolding add_contact_def using funcs_raise_caught(1) by (intro input_error_returns) auto
next
  show "\<exists>s. fst (change_contact args contacts) = Inr s"
    unfolding change_contact_def using funcs_raise_caught(2) by (intro input_error_returns) auto
next
  show "\<exists>s. fst (show_phone args contacts) = Inr s"
    unfolding show_phone_def using funcs_raise_caught(3) by (intro input_error_returns) auto
next
  assume "dict_contains contacts name"
  then show "add_contact [name, phone] contacts = (Inr UNIVERSAL_ERROR_MESSAGE, contacts)"
    by (simp add: add_contact_def input_error_def add_contact_func_cases)
next
  assume "\<not> dict_contains contacts name"
  then show "change_contact [name, phone] contacts = (Inr UNIVERSAL_ERROR_MESSAGE, contacts)"
    by (simp add: change_contact_def input_error_def change_contact_func_cases)
next
  assume "\<not> dict_contains contacts name"
  then show "show_phone [name] contacts = (Inr UNIVERSAL_ERROR_MESSAGE, contacts)"
    by (simp add: show_phone_def input_error_def show_phone_func_cases dict_contains_def)
next
  show "add_contact [] contacts = (Inr UNIVERSAL_ERROR_MESSAGE, contacts)"
    by (simp add: add_contact_def input_error_def add_contact_func_cases)
next
  show "UNIVERSAL_ERROR_MESSAGE = ''Enter the argument for the command''"
    by (simp add: UNIVERSAL_ERROR_MESSAGE_def)
qed

text \<open>C2: the statement at handlers and inputs that satisfy its hypotheses.\<close>

theorem input_error_normalizes_witness:
  "fst (change_contact_func [''Ann'', ''1''] []) = Inl KeyError
   \<and> fst (change_contact_func [''Ann'', ''1''] []) \<noteq> Inl OtherException
   \<and> input_error change_contact_func [''Ann'', ''1''] [] = (Inr UNIVERSAL_ERROR_MESSAGE, [])
   \<and> fst (add_contact_func [''Ann'', ''1''] []) = Inr ''Contact added.''
   \<and> input_error add_contact_func [''Ann'', ''1''] [] = (Inr ''Contact added.'', [(''Ann'', ''1'')])
   \<and> dict_contains [(''Ann'', ''1'')] ''Ann''
   \<and> add_contact [''Ann'', ''2''] [(''Ann'', ''1'')] = (Inr UNIVERSAL_ERROR_MESSAGE, [(''Ann'', ''1'')])
   \<and> \<not> dict_contains [(''Ann'', ''1'')] ''Bob''
   \<and> show_phone [''Bob''] [(''Ann'', ''1'')] = (Inr UNIVERSAL_ERROR_MESSAGE, [(''Ann'', ''1'')])"
proof -
  let ?c = "[(''Ann'', ''1'')]"
  have 1: "change_contact_func [''Ann'', ''1''] [] = (Inl KeyError, [])"
    by (simp add: change_contact_func_def dict_contains_def)
  have 2: "add_contact_func [''Ann'', ''1''] [] = (Inr ''Contact added.'', ?c)"
    by (simp add: add_contact_func_def dict_contains_def dict_set_def)
  have 3: "dict_contains ?c ''Ann''" and 4: "\<not> dict_contains ?c ''Bob''"
    by (simp_all add: dict_contains_def)
  note t1 = input_error_normalizes
    [of change_contact_func "[''Ann'', ''1'']" "[]" KeyError "[]" "''Ann''" "''1''"]
  note t2 = input_error_normalizes
    [of add_contact_func "[''Ann'', ''1'']" "[]" KeyError "''Contact added.''" "''Ann''" "''1''"]
  note t3 = input_error_normalizes [of add_contact_func "[]" ?c KeyError "[]" "''Ann''" "''2''"]
  note t4 = input_error_normalizes [of add_contact_func "[]" ?c KeyError "[]" "''Bob''" "''2''"]
  have a: "input_error change_contact_func [''Ann'', ''1''] [] = (Inr UNIVERSAL_ERROR_MESSAGE, [])"
    using t1 1 by simp
  have b: "input_error add_contact_func [''Ann'', ''1''] [] = (Inr ''Contact added.'', ?c)"
    using t2 2 by simp
  have c: "add_contact [''Ann'', ''2''] ?c = (Inr UNIVERSAL_ERROR_MESSAGE, ?c)"
    using t3 3 by blast
  have d: "show_phone [''Bob''] ?c = (Inr UNIVERSAL_ERROR_MESSAGE, ?c)"
    using t4 4 by blast
  show ?thesis using 1 2 3 4 a b c d by simp
qed

subsection \<open>C3: the number of arguments\<close>

text \<open>
  C3, as the code has it. \<^verbatim>\<open>add_contact\<close> and \<^verbatim>\<open>change_contact\<close> unpack the list into
  two names, so every list that has not exactly two items, shorter or longer, raises
  \<^verbatim>\<open>ValueError\<close> and gives the message, the dictionary unchanged. \<^verbatim>\<open>show_phone\<close>
  reads \<^verbatim>\<open>args[0]\<close>: it raises \<^verbatim>\<open>IndexError\<close> and gives the message on the empty
  list only; on a longer list it answers as on the first item alone, so it returns the
  phone of a known name whatever follows the name.
\<close>

theorem handler_arity:
  "(length args \<noteq> 2 \<longrightarrow>
      add_contact_func args contacts = (Inl ValueError, contacts)
      \<and> add_contact args contacts = (Inr UNIVERSAL_ERROR_MESSAGE, contacts)
      \<and> change_contact_func args contacts = (Inl ValueError, contacts)
      \<and> change_contact args contacts = (Inr UNIVERSAL_ERROR_MESSAGE, contacts))
   \<and> show_phone_func [] contacts = (Inl IndexError, contacts)
   \<and> show_phone [] contacts = (Inr UNIVERSAL_ERROR_MESSAGE, contacts)
   \<and> show_phone (name # rest) contacts = show_phone [name] contacts
   \<and> (map_of contacts name = Some phone \<longrightarrow>
        show_phone (name # rest) contacts = (Inr phone, contacts))"
  by (simp add: add_contact_def change_contact_def show_phone_def input_error_def
      add_contact_func_cases change_contact_func_cases show_phone_func_cases)

text \<open>C3: the statement at argument lists that satisfy its hypotheses.\<close>

theorem handler_arity_witness:
  "length [''Ann'', ''1'', ''2''] \<noteq> 2
   \<and> add_contact [''Ann'', ''1'', ''2''] [] = (Inr UNIVERSAL_ERROR_MESSAGE, [])
   \<and> change_contact [''Ann'', ''1'', ''2''] [] = (Inr UNIVERSAL_ERROR_MESSAGE, [])
   \<and> map_of [(''Ann'', ''999'')] ''Ann'' = Some ''999''
   \<and> show_phone [''Ann'', ''extra'', ''words''] [(''Ann'', ''999'')] = (Inr ''999'', [(''Ann'', ''999'')])"
proof -
  let ?c = "[(''Ann'', ''999'')]"
  note t1 = handler_arity [of "[''Ann'', ''1'', ''2'']" "[]" "''Ann''" "[]" "''1''"]
  note t2 = handler_arity [of "[]" ?c "''Ann''" "[''extra'', ''words'']" "''999''"]
  have m: "map_of ?c ''Ann'' = Some ''999''" by simp
  have a: "add_contact [''Ann'', ''1'', ''2''] [] = (Inr UNIVERSAL_ERROR_MESSAGE, [])"
    and b: "change_contact [''Ann'', ''1'', ''2''] [] = (Inr UNIVERSAL_ERROR_MESSAGE, [])"
    using t1 by simp_all
  have c: "show_phone [''Ann'', ''extra'', ''words''] ?c = (Inr ''999'', ?c)"
    using t2 m by blast
  show ?thesis using a b c m by simp
qed

text \<open>
  C3 as claimed fails for \<^verbatim>\<open>phone\<close> with too many arguments: \<^verbatim>\<open>phone Ann extra\<close>
  has two arguments, not one, and the answer is the phone of Ann, not the message.
\<close>

theorem show_phone_arity_counterexample:
  "length [''Ann'', ''extra''] \<noteq> 1
   \<and> show_phone [''Ann'', ''extra''] [(''Ann'', ''999'')] = (Inr ''999'', [(''Ann'', ''999'')])
   \<and> ''999'' \<noteq> UNIVERSAL_ERROR_MESSAGE"
  by (simp add: show_phone_def input_error_def show_phone_func_def UNIVERSAL_ERROR_MESSAGE_def)

subsection \<open>C4: tokenizing, rejoining and tokenizing again\<close>




subsection \<open>C5: \<^verbatim>\<open>show_all\<close>\<close>

text \<open>
  C5. \<^verbatim>\<open>show_all\<close> raises nothing: it is a function from the dictionary to a string.
  On the empty dictionary it returns \<^verbatim>\<open>No contacts saved.\<close>; on any other it returns the
  items as \<^verbatim>\<open>name: phone\<close>, joined by newlines, in the order of the dictionary. That
  is the order of insertion: a new contact is added behind all the others and its line
  comes last, and changing a contact keeps the order of the names. After
  \<^verbatim>\<open>add Ann 999\<close> and \<^verbatim>\<open>add Bob 111\<close> the command \<^verbatim>\<open>all\<close> prints the two lines
  \<^verbatim>\<open>Ann: 999\<close> and \<^verbatim>\<open>Bob: 111\<close>.
\<close>

theorem show_all_lines:
  "show_all [] = ''No contacts saved.''
   \<and> (contacts \<noteq> [] \<longrightarrow>
        show_all contacts = join [CHR 0x0A] (map (\<lambda>(name, phone). name @ '': '' @ phone) contacts))
   \<and> show_all [(name, phone)] = name @ '': '' @ phone
   \<and> (contacts \<noteq> [] \<longrightarrow>
        show_all (contacts @ [(name, phone)]) = show_all contacts @ [CHR 0x0A] @ name @ '': '' @ phone)
   \<and> (\<not> dict_contains contacts name \<longrightarrow>
        add_contact [name, phone] contacts = (Inr ''Contact added.'', contacts @ [(name, phone)]))
   \<and> (dict_contains contacts name \<longrightarrow>
        map fst (snd (change_contact [name, phone] contacts)) = map fst contacts)
   \<and> main [''add Ann 999'', ''add Bob 111'', ''all''] =
        (Break,
         [''Welcome to the assistant bot!'', ''Contact added.'', ''Contact added.'',
          ''Ann: 999'' @ [CHR 0x0A] @ ''Bob: 111'', [CHR 0x0A] @ ''Good bye!''],
         [(''Ann'', ''999''), (''Bob'', ''111'')])"
proof (intro conjI impI)
  show "show_all [] = ''No contacts saved.''" by (simp add: show_all_def)
next
  assume "contacts \<noteq> []"
  then show "show_all contacts = join [CHR 0x0A] (map (\<lambda>(name, phone). name @ '': '' @ phone) contacts)"
    by (simp add: show_all_def)
next
  show "show_all [(name, phone)] = name @ '': '' @ phone" by (simp add: show_all_def)
next
  assume "contacts \<noteq> []"
  then show "show_all (contacts @ [(name, phone)]) = show_all contacts @ [CHR 0x0A] @ name @ '': '' @ phone"
    by (simp add: show_all_def join_snoc)
next
  assume "\<not> dict_contains contacts name"
  then show "add_contact [name, phone] contacts = (Inr ''Contact added.'', contacts @ [(name, phone)])"
    by (simp add: add_contact_def input_error_def add_contact_func_cases dict_set_new)
next
  assume "dict_contains contacts name"
  then show "map fst (snd (change_contact [name, phone] contacts)) = map fst contacts"
    by (simp add: change_contact_def input_error_def change_contact_func_cases dict_set_keys)
next
  show "main [''add Ann 999'', ''add Bob 111'', ''all''] =
        (Break,
         [''Welcome to the assistant bot!'', ''Contact added.'', ''Contact added.'',
          ''Ann: 999'' @ [CHR 0x0A] @ ''Bob: 111'', [CHR 0x0A] @ ''Good bye!''],
         [(''Ann'', ''999''), (''Bob'', ''111'')])"
    by code_simp
qed

text \<open>C5: the statement at dictionaries that satisfy its hypotheses.\<close>

theorem show_all_lines_witness:
  "[(''Ann'', ''999'')] \<noteq> []
   \<and> show_all [(''Ann'', ''999''), (''Bob'', ''111'')] = ''Ann: 999'' @ [CHR 0x0A] @ ''Bob: 111''
   \<and> \<not> dict_contains [(''Ann'', ''999'')] ''Bob''
   \<and> add_contact [''Bob'', ''111''] [(''Ann'', ''999'')]
       = (Inr ''Contact added.'', [(''Ann'', ''999''), (''Bob'', ''111'')])
   \<and> dict_contains [(''Ann'', ''999''), (''Bob'', ''111'')] ''Ann''
   \<and> map fst (snd (change_contact [''Ann'', ''555''] [(''Ann'', ''999''), (''Bob'', ''111'')]))
       = [''Ann'', ''Bob'']"
proof -
  let ?c = "[(''Ann'', ''999'')]"
  let ?d = "[(''Ann'', ''999''), (''Bob'', ''111'')]"
  note t1 = show_all_lines [of ?c "''Bob''" "''111''"]
  note t2 = show_all_lines [of ?d "''Ann''" "''555''"]
  have 1: "?c \<noteq> []" by simp
  have 2: "\<not> dict_contains ?c ''Bob''" by (simp add: dict_contains_def)
  have 3: "dict_contains ?d ''Ann''" by (simp add: dict_contains_def)
  have 4: "show_all ?c = ''Ann: 999''" by (simp add: show_all_def)
  have a: "show_all (?c @ [(''Bob'', ''111'')]) = show_all ?c @ [CHR 0x0A] @ ''Bob'' @ '': '' @ ''111''"
    using t1 1 by blast
  have b: "add_contact [''Bob'', ''111''] ?c = (Inr ''Contact added.'', ?c @ [(''Bob'', ''111'')])"
    using t1 2 by blast
  have c: "map fst (snd (change_contact [''Ann'', ''555''] ?d)) = map fst ?d"
    using t2 3 by blast
  show ?thesis using 1 2 3 4 a b c by simp
qed

subsection \<open>C6: the two states of the scan\<close>

text \<open>
  C6. Outside quotes, a quote character opens a quoted span and is not appended to the
  argument being read. Inside a span opened by \<^verbatim>\<open>q\<close>, the character \<^verbatim>\<open>q\<close> closes the
  span and is not appended, and every other character, the other quote character too, is
  appended. When the scan ends inside a span, what was read of the argument is pushed as
  the last argument if it is not empty, and nothing is pushed otherwise. So
  \<^verbatim>\<open>add "John Smith" 123-456\<close> has the arguments \<^verbatim>\<open>John Smith\<close> and \<^verbatim>\<open>123-456\<close>,
  and the unclosed \<^verbatim>\<open>add John "123 456\<close> has \<^verbatim>\<open>John\<close> and \<^verbatim>\<open>123 456\<close>.
\<close>

theorem scan_quotes:
  "(scan a = (args, cur, None) \<and> (q = dquote \<or> q = squote) \<longrightarrow>
      scan (a @ [q]) = (args, cur, Some q))
   \<and> (scan a = (args, cur, Some q) \<longrightarrow> scan (a @ [q]) = (args, cur, None))
   \<and> (scan a = (args, cur, Some q) \<and> ch \<noteq> q \<longrightarrow> scan (a @ [ch]) = (args, cur @ [ch], Some q))
   \<and> (scan a = (args, cur, Some q) \<longrightarrow> collect_args a = (if cur \<noteq> [] then args @ [cur] else args))
   \<and> parse_input (''add '' @ [dquote] @ ''John Smith'' @ [dquote] @ '' 123-456'')
       = (''add'', [''John Smith'', ''123-456''])
   \<and> parse_input (''add John '' @ [dquote] @ ''123 456'') = (''add'', [''John'', ''123 456''])"
proof (intro conjI impI)
  assume "scan a = (args, cur, None) \<and> (q = dquote \<or> q = squote)"
  then show "scan (a @ [q]) = (args, cur, Some q)" by (auto simp: scan_snoc)
next
  assume "scan a = (args, cur, Some q)"
  then show "scan (a @ [q]) = (args, cur, None)" by (simp add: scan_snoc)
next
  assume "scan a = (args, cur, Some q) \<and> ch \<noteq> q"
  then show "scan (a @ [ch]) = (args, cur @ [ch], Some q)" by (simp add: scan_snoc)
next
  assume "scan a = (args, cur, Some q)"
  then show "collect_args a = (if cur \<noteq> [] then args @ [cur] else args)"
    by (simp add: collect_args_def)
next
  show "parse_input (''add '' @ [dquote] @ ''John Smith'' @ [dquote] @ '' 123-456'')
       = (''add'', [''John Smith'', ''123-456''])"
    by code_simp
next
  show "parse_input (''add John '' @ [dquote] @ ''123 456'') = (''add'', [''John'', ''123 456''])"
    by code_simp
qed

text \<open>C6: the statement at scans that satisfy its hypotheses.\<close>

theorem scan_quotes_witness:
  "scan ''ab'' = ([], ''ab'', None)
   \<and> scan (''ab'' @ [dquote]) = ([], ''ab'', Some dquote)
   \<and> scan (''ab'' @ [dquote] @ ''c d'') = ([], ''abc d'', Some dquote)
   \<and> squote \<noteq> dquote
   \<and> scan (''ab'' @ [dquote] @ ''c d'' @ [squote]) = ([], ''abc d'' @ [squote], Some dquote)
   \<and> scan (''ab'' @ [dquote] @ ''c d'' @ [dquote]) = ([], ''abc d'', None)
   \<and> collect_args (''ab'' @ [dquote] @ ''c d'') = [''abc d'']"
proof -
  have 1: "scan ''ab'' = ([], ''ab'', None)" by code_simp
  have 2: "scan (''ab'' @ [dquote] @ ''c d'') = ([], ''abc d'', Some dquote)" by code_simp
  have 3: "squote \<noteq> dquote" by simp
  note t1 = scan_quotes [of "''ab''" "[]" "''ab''" dquote squote]
  note t2 = scan_quotes [of "''ab'' @ [dquote] @ ''c d''" "[]" "''abc d''" dquote squote]
  have a: "scan (''ab'' @ [dquote]) = ([], ''ab'', Some dquote)" using t1 1 by blast
  have b: "scan ((''ab'' @ [dquote] @ ''c d'') @ [squote]) = ([], ''abc d'' @ [squote], Some dquote)"
    using t2 2 3 by blast
  have c: "scan ((''ab'' @ [dquote] @ ''c d'') @ [dquote]) = ([], ''abc d'', None)"
    using t2 2 by blast
  have d: "collect_args (''ab'' @ [dquote] @ ''c d'') = (if ''abc d'' \<noteq> [] then [] @ [''abc d''] else [])"
    using t2 2 by blast
  show ?thesis using 1 2 3 a b c d by simp
qed

subsection \<open>C7: white space and the case of the command\<close>

text \<open>
  C7. The tokenizer works on the words of the line joined by single spaces. The words are
  non-empty and free of white space; the joined line has no two white space characters
  in a row, neither begins nor ends with one, has no white space but the space character,
  and keeps every other character of the line in its place in the order; tokenizing it
  gives what tokenizing the line gives. When the joined line is empty the result is the
  empty command with no arguments; otherwise the command is the first word in lower
  case. So two lines that differ only in the case of the first word make the same turn
  of the loop, and a line whose first word is \<^verbatim>\<open>exit\<close> or \<^verbatim>\<open>close\<close> in any case,
  such as \<^verbatim>\<open>EXIT\<close> or \<^verbatim>\<open>Close\<close>, prints \<^verbatim>\<open>Good bye!\<close> and ends the loop.
\<close>

theorem parse_input_normalizes:
  "list_all is_word (split s)
   \<and> no_space_run (join '' '' (split s))
   \<and> (join '' '' (split s) \<noteq> [] \<longrightarrow>
        \<not> is_space (hd (join '' '' (split s))) \<and> \<not> is_space (last (join '' '' (split s))))
   \<and> (\<forall>c \<in> set (join '' '' (split s)). is_space c \<longrightarrow> c = CHR '' '')
   \<and> filter (\<lambda>c. \<not> is_space c) (join '' '' (split s)) = filter (\<lambda>c. \<not> is_space c) s
   \<and> parse_input (join '' '' (split s)) = parse_input s
   \<and> (join '' '' (split s) = [] \<longrightarrow> parse_input s = ([], []))
   \<and> (split s = w # ws \<longrightarrow> fst (parse_input s) = lower w)
   \<and> (split s = w # ws \<and> split s' = w' # ws \<and> lower w = lower w' \<longrightarrow>
        dispatch contacts s = dispatch contacts s')
   \<and> (split s = w # ws \<and> (lower w = ''exit'' \<or> lower w = ''close'') \<longrightarrow>
        dispatch contacts s = (Break, [''Good bye!''], contacts)
        \<and> main_loop contacts (s # lines) = (Break, [''Good bye!''], contacts))
   \<and> dispatch contacts ''EXIT'' = (Break, [''Good bye!''], contacts)
   \<and> dispatch contacts ''Close'' = (Break, [''Good bye!''], contacts)"
proof (intro conjI impI ballI)
  show "list_all is_word (split s)" by (rule split_words)
next
  show "no_space_run (join '' '' (split s))" by (rule no_space_run_join [OF split_words])
next
  assume "join '' '' (split s) \<noteq> []"
  then have "split s \<noteq> []" by auto
  then show "\<not> is_space (hd (join '' '' (split s)))"
    by (rule join_hd_nonspace [OF split_words])
next
  assume "join '' '' (split s) \<noteq> []"
  then have "split s \<noteq> []" by auto
  then show "\<not> is_space (last (join '' '' (split s)))"
    by (rule join_last_nonspace [OF split_words])
next
  fix c assume "c \<in> set (join '' '' (split s))" "is_space c"
  then show "c = CHR '' ''" by (rule join_spaces_blank [OF split_words])
next
  show "filter (\<lambda>c. \<not> is_space c) (join '' '' (split s)) = filter (\<lambda>c. \<not> is_space c) s"
    by (rule normalized_nonspace)
next
  show "parse_input (join '' '' (split s)) = parse_input s"
    by (simp add: parse_input_words split_normalized)
next
  assume "join '' '' (split s) = []"
  then show "parse_input s = ([], [])" by (simp add: parse_input_def)
next
  assume "split s = w # ws"
  then show "fst (parse_input s) = lower w" by (simp add: parse_input_words)
next
  assume "split s = w # ws \<and> split s' = w' # ws \<and> lower w = lower w'"
  then show "dispatch contacts s = dispatch contacts s'" by (simp add: dispatch_words)
next
  assume "split s = w # ws \<and> (lower w = ''exit'' \<or> lower w = ''close'')"
  then show "dispatch contacts s = (Break, [''Good bye!''], contacts)"
    by (auto simp: dispatch_words)
next
  assume "split s = w # ws \<and> (lower w = ''exit'' \<or> lower w = ''close'')"
  then have "dispatch contacts s = (Break, [''Good bye!''], contacts)"
    by (auto simp: dispatch_words)
  then show "main_loop contacts (s # lines) = (Break, [''Good bye!''], contacts)" by simp
next
  have "split ''EXIT'' = [''EXIT'']" "lower ''EXIT'' = ''exit''" by code_simp+
  then show "dispatch contacts ''EXIT'' = (Break, [''Good bye!''], contacts)"
    by (simp add: dispatch_words)
next
  have "split ''Close'' = [''Close'']" "lower ''Close'' = ''close''" by code_simp+
  then show "dispatch contacts ''Close'' = (Break, [''Good bye!''], contacts)"
    by (simp add: dispatch_words)
qed

text \<open>C7: the statement at lines that satisfy its hypotheses.\<close>

theorem parse_input_normalizes_witness:
  "join '' '' (split ''  ExIt   now  '') = ''ExIt now''
   \<and> ''ExIt now'' \<noteq> []
   \<and> \<not> is_space (hd ''ExIt now'') \<and> \<not> is_space (last ''ExIt now'')
   \<and> CHR '' '' \<in> set ''ExIt now'' \<and> is_space CHR '' ''
   \<and> join '' '' (split [CHR 0x09, CHR 0x0A]) = []
   \<and> parse_input [CHR 0x09, CHR 0x0A] = ([], [])
   \<and> split ''  ExIt   now  '' = [''ExIt'', ''now'']
   \<and> fst (parse_input ''  ExIt   now  '') = ''exit''
   \<and> split ''EXIT now'' = [''EXIT'', ''now'']
   \<and> lower ''ExIt'' = lower ''EXIT''
   \<and> dispatch [(''Ann'', ''1'')] ''  ExIt   now  '' = dispatch [(''Ann'', ''1'')] ''EXIT now''
   \<and> dispatch [(''Ann'', ''1'')] ''  ExIt   now  '' = (Break, [''Good bye!''], [(''Ann'', ''1'')])
   \<and> main_loop [(''Ann'', ''1'')] [''  ExIt   now  '', ''all''] = (Break, [''Good bye!''], [(''Ann'', ''1'')])"
proof -
  let ?s = "''  ExIt   now  ''"
  let ?c = "[(''Ann'', ''1'')]"
  note t1 = parse_input_normalizes [of ?s "''ExIt''" "[''now'']" "''EXIT now''" "''EXIT''" ?c "[''all'']"]
  note t2 = parse_input_normalizes [of "[CHR 0x09, CHR 0x0A]" "''ExIt''" "[''now'']" "''EXIT now''" "''EXIT''" ?c "[''all'']"]
  have 1: "split ?s = [''ExIt'', ''now'']" by code_simp
  have 2: "join '' '' (split ?s) = ''ExIt now''" by (simp add: 1)
  have 3: "split ''EXIT now'' = [''EXIT'', ''now'']" by code_simp
  have 4: "lower ''ExIt'' = ''exit''" and lu: "lower ''EXIT'' = ''exit''" by code_simp+
  have 5: "is_space CHR '' ''" by simp
  have 6: "join '' '' (split [CHR 0x09, CHR 0x0A]) = []" by code_simp
  have ne: "''ExIt now'' \<noteq> []" and mem: "CHR '' '' \<in> set ''ExIt now''" by simp_all
  have "\<not> is_space (hd ''ExIt now'') \<and> \<not> is_space (last ''ExIt now'')"
    using t1 ne unfolding 2 by blast
  then have 7: "\<not> is_space (hd ''ExIt now'')" and sl: "\<not> is_space (last ''ExIt now'')"
    by blast+
  have 8: "parse_input [CHR 0x09, CHR 0x0A] = ([], [])" using t2 6 by blast
  have "fst (parse_input ?s) = lower ''ExIt''" using t1 1 by blast
  then have 9: "fst (parse_input ?s) = ''exit''" by (simp only: 4)
  have lw: "lower ''ExIt'' = lower ''EXIT''" by (simp only: 4 lu)
  have 10: "dispatch ?c ?s = dispatch ?c ''EXIT now''" using t1 1 3 lw by blast
  have "dispatch ?c ?s = (Break, [''Good bye!''], ?c)
        \<and> main_loop ?c (?s # [''all'']) = (Break, [''Good bye!''], ?c)"
    using t1 1 4 by blast
  then have 11: "dispatch ?c ?s = (Break, [''Good bye!''], ?c)"
    and 12: "main_loop ?c [?s, ''all''] = (Break, [''Good bye!''], ?c)"
    by blast+
  show ?thesis
    by (intro conjI) (fact 1 2 3 lw 5 6 7 sl 8 9 10 11 12 ne mem)+
qed

subsection \<open>C8: a command that is not known\<close>

text \<open>
  C8. For every line that is not blank and whose command is none of \<^verbatim>\<open>add\<close>,
  \<^verbatim>\<open>change\<close>, \<^verbatim>\<open>phone\<close>, \<^verbatim>\<open>all\<close>, \<^verbatim>\<open>hello\<close>, \<^verbatim>\<open>exit\<close> and \<^verbatim>\<open>close\<close>, the
  turn prints exactly \<^verbatim>\<open>Invalid command.\<close>, leaves the contacts as they were and goes
  on with the next line. No handler is called, and the line printed is not the message of
  \<^verbatim>\<open>input_error\<close>.
\<close>

theorem invalid_command:
  "strip line \<noteq> [] \<Longrightarrow>
   fst (parse_input (strip line)) \<notin>
     {''add'', ''change'', ''phone'', ''all'', ''hello'', ''exit'', ''close''} \<Longrightarrow>
   dispatch contacts line = (Continue, [''Invalid command.''], contacts)
   \<and> ''Invalid command.'' \<noteq> UNIVERSAL_ERROR_MESSAGE
   \<and> main_loop contacts (line # lines) =
       (case main_loop contacts lines of
          (ctl, out, contacts') \<Rightarrow> (ctl, ''Invalid command.'' # out, contacts'))"
proof -
  assume ne: "strip line \<noteq> []"
    and cmd: "fst (parse_input (strip line)) \<notin>
      {''add'', ''change'', ''phone'', ''all'', ''hello'', ''exit'', ''close''}"
  obtain command args where p: "parse_input (strip line) = (command, args)"
    by (cases "parse_input (strip line)")
  have d: "dispatch contacts line = (Continue, [''Invalid command.''], contacts)"
    using ne cmd by (simp add: dispatch_def p)
  show ?thesis
    by (simp add: d UNIVERSAL_ERROR_MESSAGE_def)
qed

text \<open>C8: the statement at the line \<^verbatim>\<open>foo bar\<close>.\<close>

theorem invalid_command_witness:
  "strip ''foo bar'' \<noteq> []
   \<and> fst (parse_input (strip ''foo bar'')) \<notin>
       {''add'', ''change'', ''phone'', ''all'', ''hello'', ''exit'', ''close''}
   \<and> dispatch [(''Ann'', ''999'')] ''foo bar'' = (Continue, [''Invalid command.''], [(''Ann'', ''999'')])
   \<and> main_loop [(''Ann'', ''999'')] [''foo bar'', ''all''] =
       (Break, [''Invalid command.'', ''Ann: 999'', [CHR 0x0A] @ ''Good bye!''], [(''Ann'', ''999'')])"
proof -
  have 1: "strip ''foo bar'' = ''foo bar''" by code_simp
  have 2: "parse_input ''foo bar'' = (''foo'', [''bar''])" by code_simp
  have 3: "main_loop [(''Ann'', ''999'')] [''all''] =
      (Break, [''Ann: 999'', [CHR 0x0A] @ ''Good bye!''], [(''Ann'', ''999'')])" by code_simp
  have 4: "strip ''foo bar'' \<noteq> []" using 1 by simp
  have 5: "fst (parse_input (strip ''foo bar'')) \<notin>
       {''add'', ''change'', ''phone'', ''all'', ''hello'', ''exit'', ''close''}"
    using 1 2 by simp
  show ?thesis
    using invalid_command [OF 4 5, of "[(''Ann'', ''999'')]" "[''all'']"] 3 4 5 by simp
qed

subsection \<open>C9: a failed handler leaves the contacts alone\<close>

text \<open>
  C9. When the body of \<^verbatim>\<open>add_contact\<close> or \<^verbatim>\<open>change_contact\<close> raises, the dictionary
  is the one it was called with (the checks come before the assignment), and
  \<^verbatim>\<open>show_phone\<close> never changes it. So whenever a wrapped handler returns
  \<^verbatim>\<open>Enter the argument for the command\<close>, the dictionary after the call is the
  dictionary before it.
\<close>

theorem failure_leaves_contacts:
  "(fst (add_contact_func args contacts) = Inl e \<longrightarrow> snd (add_contact_func args contacts) = contacts)
   \<and> (fst (change_contact_func args contacts) = Inl e \<longrightarrow>
        snd (change_contact_func args contacts) = contacts)
   \<and> snd (show_phone_func args contacts) = contacts
   \<and> (fst (add_contact args contacts) = Inr UNIVERSAL_ERROR_MESSAGE \<longrightarrow>
        snd (add_contact args contacts) = contacts)
   \<and> (fst (change_contact args contacts) = Inr UNIVERSAL_ERROR_MESSAGE \<longrightarrow>
        snd (change_contact args contacts) = contacts)
   \<and> (fst (show_phone args contacts) = Inr UNIVERSAL_ERROR_MESSAGE \<longrightarrow>
        snd (show_phone args contacts) = contacts)"
  by (simp add: add_contact_def change_contact_def show_phone_def input_error_def
      add_contact_func_cases change_contact_func_cases show_phone_func_cases
      UNIVERSAL_ERROR_MESSAGE_def split: option.splits)

text \<open>C9: the statement at calls that fail.\<close>

theorem failure_leaves_contacts_witness:
  "fst (add_contact_func [''Ann'', ''2''] [(''Ann'', ''1'')]) = Inl ValueError
   \<and> snd (add_contact_func [''Ann'', ''2''] [(''Ann'', ''1'')]) = [(''Ann'', ''1'')]
   \<and> fst (change_contact_func [''Bob'', ''2''] [(''Ann'', ''1'')]) = Inl KeyError
   \<and> snd (change_contact_func [''Bob'', ''2''] [(''Ann'', ''1'')]) = [(''Ann'', ''1'')]
   \<and> fst (add_contact [''Ann'', ''2''] [(''Ann'', ''1'')]) = Inr UNIVERSAL_ERROR_MESSAGE
   \<and> snd (add_contact [''Ann'', ''2''] [(''Ann'', ''1'')]) = [(''Ann'', ''1'')]
   \<and> fst (change_contact [''Bob'', ''2''] [(''Ann'', ''1'')]) = Inr UNIVERSAL_ERROR_MESSAGE
   \<and> snd (change_contact [''Bob'', ''2''] [(''Ann'', ''1'')]) = [(''Ann'', ''1'')]
   \<and> fst (show_phone [''Bob''] [(''Ann'', ''1'')]) = Inr UNIVERSAL_ERROR_MESSAGE
   \<and> snd (show_phone [''Bob''] [(''Ann'', ''1'')]) = [(''Ann'', ''1'')]"
proof -
  let ?c = "[(''Ann'', ''1'')]"
  have 1: "add_contact_func [''Ann'', ''2''] ?c = (Inl ValueError, ?c)"
    by (simp add: add_contact_func_def dict_contains_def)
  have 2: "change_contact_func [''Bob'', ''2''] ?c = (Inl KeyError, ?c)"
    by (simp add: change_contact_func_def dict_contains_def)
  have 3: "fst (add_contact [''Ann'', ''2''] ?c) = Inr UNIVERSAL_ERROR_MESSAGE"
    by (simp add: add_contact_def input_error_def 1)
  have 4: "fst (change_contact [''Bob'', ''2''] ?c) = Inr UNIVERSAL_ERROR_MESSAGE"
    by (simp add: change_contact_def input_error_def 2)
  have 5: "fst (show_phone [''Bob''] ?c) = Inr UNIVERSAL_ERROR_MESSAGE"
    by (simp add: show_phone_def input_error_def show_phone_func_def)
  note t1 = failure_leaves_contacts [of "[''Ann'', ''2'']" ?c ValueError]
  note t2 = failure_leaves_contacts [of "[''Bob'', ''2'']" ?c KeyError]
  note t3 = failure_leaves_contacts [of "[''Bob'']" ?c KeyError]
  have a: "snd (add_contact [''Ann'', ''2''] ?c) = ?c" using t1 3 by blast
  have b: "snd (change_contact [''Bob'', ''2''] ?c) = ?c" using t2 4 by blast
  have c: "snd (show_phone [''Bob''] ?c) = ?c" using t3 5 by blast
  show ?thesis using 1 2 3 4 5 a b c by simp
qed

subsection \<open>C10: commands that take no arguments\<close>

text \<open>
  C10. Whatever arguments the tokenizer found on the line, the command \<^verbatim>\<open>all\<close> prints
  \<^verbatim>\<open>show_all\<close> of the contacts, \<^verbatim>\<open>hello\<close> prints the greeting, and \<^verbatim>\<open>exit\<close> and
  \<^verbatim>\<open>close\<close> print \<^verbatim>\<open>Good bye!\<close> and end the loop; the contacts stay as they were. So
  \<^verbatim>\<open>all extra words\<close> lists every contact and \<^verbatim>\<open>exit now\<close> ends the session.
\<close>

theorem ignored_arguments:
  "strip line \<noteq> [] \<Longrightarrow> parse_input (strip line) = (command, args) \<Longrightarrow>
   (command = ''all'' \<longrightarrow> dispatch contacts line = (Continue, [show_all contacts], contacts))
   \<and> (command = ''hello'' \<longrightarrow>
        dispatch contacts line = (Continue, [''How can I help you?''], contacts))
   \<and> (command = ''exit'' \<or> command = ''close'' \<longrightarrow>
        dispatch contacts line = (Break, [''Good bye!''], contacts)
        \<and> main_loop contacts (line # lines) = (Break, [''Good bye!''], contacts))"
  by (simp add: dispatch_def)

text \<open>C10: the statement at lines with arguments.\<close>

theorem ignored_arguments_witness:
  "strip ''all extra words'' \<noteq> []
   \<and> parse_input (strip ''all extra words'') = (''all'', [''extra'', ''words''])
   \<and> dispatch [(''Ann'', ''999''), (''Bob'', ''111'')] ''all extra words'' =
       (Continue, [''Ann: 999'' @ [CHR 0x0A] @ ''Bob: 111''], [(''Ann'', ''999''), (''Bob'', ''111'')])
   \<and> strip ''exit now'' \<noteq> []
   \<and> parse_input (strip ''exit now'') = (''exit'', [''now''])
   \<and> main_loop [(''Ann'', ''999'')] [''exit now'', ''all''] = (Break, [''Good bye!''], [(''Ann'', ''999'')])
   \<and> parse_input (strip ''hello there'') = (''hello'', [''there''])
   \<and> dispatch [] ''hello there'' = (Continue, [''How can I help you?''], [])"
proof -
  let ?d = "[(''Ann'', ''999''), (''Bob'', ''111'')]"
  have 1: "strip ''all extra words'' \<noteq> []" "strip ''exit now'' \<noteq> []" "strip ''hello there'' \<noteq> []"
    by code_simp+
  have 2: "parse_input (strip ''all extra words'') = (''all'', [''extra'', ''words''])" by code_simp
  have 3: "parse_input (strip ''exit now'') = (''exit'', [''now''])" by code_simp
  have 4: "parse_input (strip ''hello there'') = (''hello'', [''there''])" by code_simp
  have 5: "show_all ?d = ''Ann: 999'' @ [CHR 0x0A] @ ''Bob: 111''" by (simp add: show_all_def)
  show ?thesis
    using 1 2 3 4 5
      ignored_arguments [OF 1(1) 2, of ?d "[]"]
      ignored_arguments [OF 1(2) 3, of "[(''Ann'', ''999'')]" "[''all'']"]
      ignored_arguments [OF 1(3) 4, of "[]" "[]"]
    by simp
qed

end
